theory Spec2Isabelle
  imports Main "HOL-Library.Word"
begin

section \<open>Key generation and SEC encoding of public keys (cryptos/keys.py)\<close>

subsection \<open>Values, errors and the collaborators\<close>

type_synonym byte = "8 word"

text \<open>
  The exceptions the modelled code can raise. The \<^verbatim>\<open>assert\<close> statements of
  \<^verbatim>\<open>gen_secret_key\<close> and \<^verbatim>\<open>PublicKey.decode\<close> raise \<open>AssertionError\<close>; these are the
  failures the specification calls ConfigurationError and InvalidEncodingError.
  \<open>IndexError\<close> is \<^verbatim>\<open>b[0]\<close> on empty bytes, \<open>OverflowError\<close> is \<^verbatim>\<open>int.to_bytes\<close> on a
  negative or too large integer, \<open>ValueError\<close> is \<^verbatim>\<open>pow\<close> with modulus 0 and
  \<^verbatim>\<open>bytes.fromhex\<close> on a malformed string, \<open>KeyError\<close> a missing dictionary key.
  \<open>SourceError\<close> stands for whatever an entropy source itself raises (a failing
  operating system call, end of input on the console, a word that is not ASCII).
\<close>

datatype error =
    AssertionError
  | IndexError
  | OverflowError
  | ValueError
  | KeyError
  | SourceError

text \<open>
  Modelled from the spec: the curve parameters (module \<^verbatim>\<open>.curves\<close> and the constant
  \<^verbatim>\<open>BITCOIN\<close> of module \<^verbatim>\<open>.bitcoin\<close> live outside \<^verbatim>\<open>keys.py\<close>). The only attribute
  the code reads is the prime modulus \<^verbatim>\<open>curve.p\<close>; the functions below take the curve
  as an argument.
\<close>

record curve =
  p :: int

text \<open>
  The attributes of a \<^verbatim>\<open>Point\<close> object, as \<^verbatim>\<open>from_point\<close> and \<^verbatim>\<open>decode\<close> pass them to
  the constructor: \<^verbatim>\<open>cls(curve, x, y)\<close>.
\<close>

record point =
  curve :: curve
  x :: int
  y :: int

text \<open>
  An object together with its class: \<^verbatim>\<open>Point(...)\<close> builds a base point,
  \<^verbatim>\<open>PublicKey(...)\<close> an instance of the subclass that carries \<^verbatim>\<open>encode\<close>.
\<close>

datatype pyobj =
    Point point
  | PublicKey point

subsection \<open>Python built-ins used by the code\<close>

text \<open>\<^verbatim>\<open>int.from_bytes(b, 'big')\<close>: the unsigned big-endian value of a byte string.\<close>

definition from_bytes :: "byte list \<Rightarrow> int" where
  "from_bytes b = foldl (\<lambda>acc v. acc * 256 + uint v) 0 b"

text \<open>
  \<^verbatim>\<open>k.to_bytes(length, 'big')\<close>: raises OverflowError for a negative \<open>k\<close> and for a
  \<open>k\<close> that does not fit in \<open>length\<close> bytes; otherwise the \<open>length\<close> base-256 digits of
  \<open>k\<close>, most significant first.
\<close>

fun be_digits :: "nat \<Rightarrow> int \<Rightarrow> byte list" where
  "be_digits 0 k = []"
| "be_digits (Suc n) k = be_digits n (k div 256) @ [word_of_int (k mod 256)]"

definition to_bytes :: "int \<Rightarrow> nat \<Rightarrow> error + byte list" where
  "to_bytes k len =
     (if k < 0 then Inl OverflowError
      else if 256 ^ len \<le> k then Inl OverflowError
      else Inr (be_digits len k))"

text \<open>
  \<^verbatim>\<open>pow(b, e, m)\<close> with three arguments. Modulus 0 raises ValueError. For \<open>0 \<le> e\<close> the
  result is \<open>b ^ e mod m\<close>, where Python's \<^verbatim>\<open>%\<close> and HOL's \<open>mod\<close> both take the sign of
  the modulus. A negative exponent raises ValueError before Python 3.8 and computes a
  modular inverse from 3.8 on; the model takes the former. In \<^verbatim>\<open>decode\<close> the exponents are
  \<open>3\<close> and \<open>(p + 1) div 4\<close>, so that branch needs \<open>p < - 1\<close>.
\<close>

definition pow_mod :: "int \<Rightarrow> int \<Rightarrow> int \<Rightarrow> error + int" where
  "pow_mod b e m =
     (if m = 0 then Inl ValueError
      else if e < 0 then Inl ValueError
      else Inr (b ^ nat e mod m))"

text \<open>Sequencing of a computation that may raise.\<close>

definition bind_err :: "error + 'a \<Rightarrow> ('a \<Rightarrow> error + 'b) \<Rightarrow> error + 'b" where
  "bind_err r f = (case r of Inl e \<Rightarrow> Inl e | Inr v \<Rightarrow> f v)"

subsection \<open>PublicKey.encode and PublicKey.decode\<close>

text \<open>
  \<^verbatim>\<open>self.encode(compressed)\<close> for a \<^verbatim>\<open>PublicKey\<close> object with attributes \<open>self\<close>. The
  byte strings \<^verbatim>\<open>b'\x02'\<close>, \<^verbatim>\<open>b'\x03'\<close>, \<^verbatim>\<open>b'\x04'\<close> are one-element lists.
\<close>

definition encode :: "point \<Rightarrow> bool \<Rightarrow> error + byte list" where
  "encode self compressed =
     (if compressed then
        (let prefix = (if y self mod 2 = 0 then [2] else [3])
         in bind_err (to_bytes (x self) 32) (\<lambda>bx. Inr (prefix @ bx)))
      else
        bind_err (to_bytes (x self) 32) (\<lambda>bx.
        bind_err (to_bytes (y self) 32) (\<lambda>by. Inr ([4] @ bx @ by))))"

text \<open>
  \<^verbatim>\<open>PublicKey.decode(b)\<close>, so \<^verbatim>\<open>cls\<close> is \<^verbatim>\<open>PublicKey\<close>. The first argument is the curve
  \<^verbatim>\<open>BITCOIN.gen.G.curve\<close> that the code takes from a global. The slices \<^verbatim>\<open>b[1:33]\<close>,
  \<^verbatim>\<open>b[33:65]\<close> and \<^verbatim>\<open>b[1:]\<close> never raise: a slice of a short string is just shorter.
\<close>

definition decode :: "curve \<Rightarrow> byte list \<Rightarrow> error + pyobj" where
  "decode G_curve b =
     (case b of
        [] \<Rightarrow> Inl IndexError
      | b0 # _ \<Rightarrow>
          if b0 = 4 then
            (let xv = from_bytes (take 32 (drop 1 b));
                 yv = from_bytes (take 32 (drop 33 b))
             in Inr (Point \<lparr>curve = G_curve, x = xv, y = yv\<rparr>))
          else if b0 \<notin> set [2, 3] then Inl AssertionError
          else
            (let is_even = (b0 = 2);
                 xv = from_bytes (drop 1 b);
                 pv = p G_curve
             in bind_err (pow_mod xv 3 pv) (\<lambda>x3.
                  let y2 = (x3 + 7) mod pv
                  in bind_err (pow_mod y2 ((pv + 1) div 4) pv) (\<lambda>y0.
                       let yv = (if (y0 mod 2 = 0) = is_even then y0 else pv - y0)
                       in Inr (PublicKey \<lparr>curve = G_curve, x = xv, y = yv\<rparr>)))))"

subsection \<open>Entropy sources and gen_secret_key\<close>

text \<open>
  What the code reads from outside. \<^verbatim>\<open>os.urandom(32)\<close>, the console, the clock and the
  \<^verbatim>\<open>sha256\<close> of module \<^verbatim>\<open>.sha256\<close> live outside \<^verbatim>\<open>keys.py\<close>, so the world gives, for
  every call number \<open>i\<close> (counted from 0 within one run of the sampling loop), what the \<open>i\<close>-th call of \<^verbatim>\<open>random_bytes_os\<close> and of \<^verbatim>\<open>random_bytes_user\<close>
  yields: a byte string, or the error the call raises.
\<close>

record world =
  os_urandom :: "nat \<Rightarrow> error + byte list"
  user_sha256 :: "nat \<Rightarrow> error + byte list"

definition random_bytes_os :: "world \<Rightarrow> nat \<Rightarrow> error + byte list" where
  "random_bytes_os w i = os_urandom w i"

definition random_bytes_user :: "world \<Rightarrow> nat \<Rightarrow> error + byte list" where
  "random_bytes_user w i = user_sha256 w i"

text \<open>
  \<^verbatim>\<open>bytes.fromhex\<close> on a string of hexadecimal digits (the code calls it on a literal
  without white space): two digits per byte, ValueError on anything else.
\<close>

definition hex_digit :: "char \<Rightarrow> nat option" where
  "hex_digit ch =
     (let c = (of_char ch :: nat)
      in if 48 \<le> c \<and> c \<le> 57 then Some (c - 48)
         else if 97 \<le> c \<and> c \<le> 102 then Some (c - 87)
         else if 65 \<le> c \<and> c \<le> 70 then Some (c - 55)
         else None)"

fun fromhex :: "string \<Rightarrow> error + byte list" where
  "fromhex [] = Inr []"
| "fromhex [c] = Inl ValueError"
| "fromhex (c # d # cs) =
     (case (hex_digit c, hex_digit d) of
        (Some hi, Some lo) \<Rightarrow>
          bind_err (fromhex cs) (\<lambda>bs. Inr (of_nat (16 * hi + lo) # bs))
      | _ \<Rightarrow> Inl ValueError)"

definition mastering_bitcoin_bytes :: "error + byte list" where
  "mastering_bitcoin_bytes =
     (let sk = ''3aba4162c7251c891207b747840551a71939b0de081f85c4e44cf7c13e41daa6''
      in fromhex sk)"

text \<open>
  The \<^verbatim>\<open>while True\<close> loop of \<^verbatim>\<open>gen_secret_key\<close>, entered at call number \<open>i\<close>. It may
  run forever: the result \<open>None\<close> is a run that never returns, \<open>Some (Inl e)\<close> a run
  ended by the exception \<open>e\<close> of the byte source, \<open>Some (Inr key)\<close> a returned key.
\<close>

partial_function (option) sample_loop ::
  "(nat \<Rightarrow> error + byte list) \<Rightarrow> int \<Rightarrow> nat \<Rightarrow> (error + int) option" where
  "sample_loop bytes_fn n i =
     (case bytes_fn i of
        Inl e \<Rightarrow> Some (Inl e)
      | Inr bs \<Rightarrow>
          (let key = from_bytes bs
           in if 1 \<le> key \<and> key < n then Some (Inr key)
              else sample_loop bytes_fn n (Suc i)))"

text \<open>The dictionary from which \<^verbatim>\<open>gen_secret_key\<close> picks \<^verbatim>\<open>bytes_fn\<close>.\<close>

definition bytes_fns :: "world \<Rightarrow> (string \<times> (nat \<Rightarrow> error + byte list)) list" where
  "bytes_fns w =
     [(''os'', random_bytes_os w),
      (''user'', random_bytes_user w),
      (''mastering'', \<lambda>i. mastering_bitcoin_bytes)]"

definition gen_secret_key :: "world \<Rightarrow> int \<Rightarrow> string \<Rightarrow> (error + int) option" where
  "gen_secret_key w n source =
     (if source \<notin> set [''os'', ''user'', ''mastering''] then Some (Inl AssertionError)
      else
        (case map_of (bytes_fns w) source of
           None \<Rightarrow> Some (Inl KeyError)
         | Some bytes_fn \<Rightarrow> sample_loop bytes_fn n 0))"

subsection \<open>Notions used to state the properties\<close>

text \<open>
  Modelled from the spec: the modulus of the curve is a prime (``prime modulus \<open>p\<close>'').
  The value of \<^verbatim>\<open>BITCOIN.gen.G.curve.p\<close> is defined outside \<^verbatim>\<open>keys.py\<close>; the theorems
  hold for every modulus with the properties they assume.
\<close>

definition prime_modulus :: "int \<Rightarrow> bool" where
  "prime_modulus q \<longleftrightarrow> 1 < q \<and> (\<forall>d\<in>{2..<q}. \<not> d dvd q)"

text \<open>The curve equation \<open>y\<^sup>2 \<equiv> x\<^sup>3 + 7 (mod p)\<close> of the data model.\<close>

definition on_curve :: "point \<Rightarrow> bool" where
  "on_curve pt \<longleftrightarrow> y pt * y pt mod p (curve pt) = (x pt ^ 3 + 7) mod p (curve pt)"

text \<open>\<open>a\<close> is a quadratic residue modulo \<open>q\<close> (a square of some residue, 0 included).\<close>

definition quadratic_residue :: "int \<Rightarrow> int \<Rightarrow> bool" where
  "quadratic_residue q a \<longleftrightarrow> (\<exists>z\<in>{0..<q}. z * z mod q = a mod q)"

text \<open>
  ``\<open>k\<close> as \<open>n\<close>-byte big-endian'', in the words of the format: byte number \<open>i\<close> from
  the left is the digit of weight \<open>256 ^ (n - 1 - i)\<close>.
\<close>

definition big_endian :: "nat \<Rightarrow> int \<Rightarrow> byte list" where
  "big_endian n k = map (\<lambda>i. word_of_int (k div 256 ^ (n - 1 - i) mod 256)) [0..<n]"

text \<open>The integer that the hexadecimal literal of \<^verbatim>\<open>mastering_bitcoin_bytes\<close> denotes.\<close>

definition mastering_key :: int where
  "mastering_key = 0x3aba4162c7251c891207b747840551a71939b0de081f85c4e44cf7c13e41daa6"

text \<open>
  What a finished run of the sampling loop entered at call \<open>i\<close> has done: it stopped at
  some call \<open>j\<close>, either with the error that call raised or with the value of the bytes
  that call gave, which lies in the range.
\<close>

definition loop_post ::
  "(nat \<Rightarrow> error + byte list) \<Rightarrow> int \<Rightarrow> nat \<Rightarrow> error + int \<Rightarrow> bool" where
  "loop_post bytes_fn n i r \<longleftrightarrow>
     (\<exists>j\<ge>i. (case r of
               Inl e \<Rightarrow> bytes_fn j = Inl e
             | Inr k \<Rightarrow> 1 \<le> k \<and> k < n \<and> (\<exists>bs. bytes_fn j = Inr bs \<and> from_bytes bs = k)))"

section \<open>The sampling loop of gen_secret_key\<close>

text \<open>One step of the loop, for each of its three outcomes.\<close>

lemma sample_loop_accept:
  "bytes_fn i = Inr bs \<Longrightarrow> 1 \<le> from_bytes bs \<Longrightarrow> from_bytes bs < n \<Longrightarrow>
   sample_loop bytes_fn n i = Some (Inr (from_bytes bs))"
  by (subst sample_loop.simps) simp

lemma sample_loop_reject:
  "bytes_fn i = Inr bs \<Longrightarrow> \<not> (1 \<le> from_bytes bs \<and> from_bytes bs < n) \<Longrightarrow>
   sample_loop bytes_fn n i = sample_loop bytes_fn n (Suc i)"
  by (subst sample_loop.simps) (auto simp add: Let_def)

lemma sample_loop_raise:
  "bytes_fn i = Inl e \<Longrightarrow> sample_loop bytes_fn n i = Some (Inl e)"
  by (subst sample_loop.simps) simp

text \<open>Every finished run satisfies \<open>loop_post\<close>: induction over the unfolding of the loop.\<close>

lemma loop_post_here:
  "(case r of Inl e \<Rightarrow> bytes_fn i = Inl e
     | Inr k \<Rightarrow> 1 \<le> k \<and> k < n \<and> (\<exists>bs. bytes_fn i = Inr bs \<and> from_bytes bs = k)) \<Longrightarrow>
   loop_post bytes_fn n i r"
  unfolding loop_post_def by (rule exI[of _ i]) simp

lemma loop_post_later: "loop_post bytes_fn n (Suc i) r \<Longrightarrow> loop_post bytes_fn n i r"
  unfolding loop_post_def using Suc_leD by blast

lemma sample_loop_result:
  assumes ret: "sample_loop bytes_fn n i = Some r"
  shows "loop_post bytes_fn n i r"
proof (rule sample_loop.raw_induct [where P = loop_post, OF _ ret])
  fix loop :: "(nat \<Rightarrow> error + byte list) \<Rightarrow> int \<Rightarrow> nat \<Rightarrow> (error + int) option"
  fix f m j res
  assume IH: "\<And>g k l v. loop g k l = Some v \<Longrightarrow> loop_post g k l v"
  assume body: "(case f j of
        Inl e \<Rightarrow> Some (Inl e)
      | Inr bs \<Rightarrow>
          (let key = from_bytes bs
           in if 1 \<le> key \<and> key < m then Some (Inr key)
              else loop f m (Suc j))) = Some res"
  show "loop_post f m j res"
  proof (cases "f j")
    case (Inl e)
    with body have "res = Inl e" by simp
    with Inl show ?thesis by (intro loop_post_here) simp
  next
    case (Inr bs)
    show ?thesis
    proof (cases "1 \<le> from_bytes bs \<and> from_bytes bs < m")
      case True
      with Inr body have "res = Inr (from_bytes bs)" by simp
      with Inr True show ?thesis by (intro loop_post_here) simp
    next
      case False
      with Inr body have "loop f m (Suc j) = Some res" by (auto simp add: Let_def)
      then have "loop_post f m (Suc j) res" by (rule IH)
      then show ?thesis by (rule loop_post_later)
    qed
  qed
qed

text \<open>A source that gives the same rejected bytes at every call keeps the loop running.\<close>

lemma sample_loop_const_reject:
  assumes "\<And>j. bytes_fn j = Inr bs" and "\<not> (1 \<le> from_bytes bs \<and> from_bytes bs < n)"
  shows "sample_loop bytes_fn n i = None"
proof (cases "sample_loop bytes_fn n i")
  case None then show ?thesis .
next
  case (Some r)
  from sample_loop_result[OF this] assms show ?thesis
    unfolding loop_post_def by (cases r) auto
qed


subsection \<open>The fixed source\<close>

lemma mastering_bitcoin_bytes_eq:
  "mastering_bitcoin_bytes =
     Inr [0x3a, 0xba, 0x41, 0x62, 0xc7, 0x25, 0x1c, 0x89, 0x12, 0x07, 0xb7, 0x47, 0x84, 0x05,
          0x51, 0xa7, 0x19, 0x39, 0xb0, 0xde, 0x08, 0x1f, 0x85, 0xc4, 0xe4, 0x4c, 0xf7, 0xc1,
          0x3e, 0x41, 0xda, 0xa6]"
  by (simp add: mastering_bitcoin_bytes_def hex_digit_def bind_err_def)

lemma mastering_bitcoin_bytes_key:
  "\<exists>bs. mastering_bitcoin_bytes = Inr bs \<and> from_bytes bs = mastering_key"
  by (simp add: mastering_bitcoin_bytes_eq from_bytes_def mastering_key_def)

lemma mastering_key_pos: "1 \<le> mastering_key"
  by (simp add: mastering_key_def)

lemma bytes_fns_lookup:
  "map_of (bytes_fns w) ''os'' = Some (random_bytes_os w)"
  "map_of (bytes_fns w) ''user'' = Some (random_bytes_user w)"
  "map_of (bytes_fns w) ''mastering'' = Some (\<lambda>i. mastering_bitcoin_bytes)"
  by (simp_all add: bytes_fns_def)

lemma gen_secret_key_mastering:
  "gen_secret_key w n ''mastering'' = sample_loop (\<lambda>i. mastering_bitcoin_bytes) n 0"
  by (simp add: gen_secret_key_def bytes_fns_lookup)

lemma gen_secret_key_recognized:
  "source \<in> set [''os'', ''user'', ''mastering''] \<Longrightarrow>
   \<exists>bytes_fn. map_of (bytes_fns w) source = Some bytes_fn \<and>
     gen_secret_key w n source = sample_loop bytes_fn n 0"
  unfolding gen_secret_key_def using bytes_fns_lookup[of w] by auto

lemma mastering_accepts:
  "mastering_key < n \<Longrightarrow> sample_loop (\<lambda>i. mastering_bitcoin_bytes) n i = Some (Inr mastering_key)"
  using mastering_bitcoin_bytes_key mastering_key_pos
    sample_loop_accept[of "\<lambda>i. mastering_bitcoin_bytes" i _ n] by auto

lemma mastering_rejects:
  "\<not> mastering_key < n \<Longrightarrow> sample_loop (\<lambda>i. mastering_bitcoin_bytes) n i = None"
  using mastering_bitcoin_bytes_key
    sample_loop_const_reject[of "\<lambda>i. mastering_bitcoin_bytes" _ n i] by auto

section \<open>Properties of gen_secret_key\<close>

text \<open>
  Claim C7. For every upper bound \<open>n\<close> greater than
  \<open>0x3aba4162c7251c891207b747840551a71939b0de081f85c4e44cf7c13e41daa6\<close>, \<^verbatim>\<open>gen_secret_key\<close>
  with the source \<^verbatim>\<open>'mastering'\<close> returns exactly that integer, whatever the world, and
  the value lies in \<open>[1, n)\<close>.
\<close>

theorem gen_secret_key_mastering_value: 
  assumes "0x3aba4162c7251c891207b747840551a71939b0de081f85c4e44cf7c13e41daa6 < n"
  shows "gen_secret_key w n ''mastering'' =
           Some (Inr 0x3aba4162c7251c891207b747840551a71939b0de081f85c4e44cf7c13e41daa6)
         \<and> 1 \<le> (0x3aba4162c7251c891207b747840551a71939b0de081f85c4e44cf7c13e41daa6 :: int)
         \<and> 0x3aba4162c7251c891207b747840551a71939b0de081f85c4e44cf7c13e41daa6 < n"
  using assms mastering_accepts[of n 0] 
  by (simp add: gen_secret_key_mastering mastering_key_def)

text \<open>
  Claim C10. With the source \<^verbatim>\<open>'mastering'\<close> the call returns if and only if the
  hardcoded value is less than the upper bound \<open>n\<close>; for any \<open>n\<close> up to that value the
  loop rejects the same sample at every call and the run never ends (\<open>None\<close>).
\<close>

theorem gen_secret_key_mastering_returns_iff:
  "(\<exists>r. gen_secret_key w n ''mastering'' = Some r) \<longleftrightarrow>
     0x3aba4162c7251c891207b747840551a71939b0de081f85c4e44cf7c13e41daa6 < n"
proof -
  have "(\<exists>r. gen_secret_key w n ''mastering'' = Some r) \<longleftrightarrow> mastering_key < n"
  proof (cases "mastering_key < n")
    case True
    then show ?thesis by (simp add: gen_secret_key_mastering mastering_accepts)
  next
    case False
    then show ?thesis by (simp add: gen_secret_key_mastering mastering_rejects)
  qed
  then show ?thesis by (simp add: mastering_key_def)
qed

text \<open>
  Claim C5. For every recognised source and every upper bound \<open>n\<close>, whenever
  \<^verbatim>\<open>gen_secret_key\<close> returns a key \<open>k\<close>, then \<open>1 \<le> k < n\<close>, and \<open>k\<close> is the big-endian
  value of the bytes that one call of the chosen byte source gave, neither reduced nor
  truncated.
\<close>

theorem gen_secret_key_in_range:
  assumes "source \<in> set [''os'', ''user'', ''mastering'']"
      and "gen_secret_key w n source = Some (Inr k)"
  shows "1 \<le> k \<and> k < n \<and>
         (\<exists>bytes_fn j bs. map_of (bytes_fns w) source = Some bytes_fn \<and>
            bytes_fn j = Inr bs \<and> from_bytes bs = k)"
proof -
  from gen_secret_key_recognized[OF assms(1), of w n] assms(2)
  obtain bytes_fn where f: "map_of (bytes_fns w) source = Some bytes_fn"
    and "sample_loop bytes_fn n 0 = Some (Inr k)" by auto
  then have "loop_post bytes_fn n 0 (Inr k)" by (simp add: sample_loop_result)
  with f show ?thesis unfolding loop_post_def by auto
qed

text \<open>
  Claim C8. A source name outside \<^verbatim>\<open>['os', 'user', 'mastering']\<close> makes \<^verbatim>\<open>gen_secret_key\<close>
  fail on its assertion (the ConfigurationError of the specification). For a recognised
  name the function raises nothing of its own: an error that ends the run is one that a
  call of the chosen byte source raised, and the fixed source never ends in an error.
\<close>

theorem gen_secret_key_errors:
  "(source \<notin> set [''os'', ''user'', ''mastering''] \<longrightarrow>
      gen_secret_key w n source = Some (Inl AssertionError)) \<and>
   (source \<in> set [''os'', ''user'', ''mastering''] \<longrightarrow>
      (\<forall>e. gen_secret_key w n source = Some (Inl e) \<longrightarrow>
         (\<exists>bytes_fn j. map_of (bytes_fns w) source = Some bytes_fn \<and> bytes_fn j = Inl e))) \<and>
   (\<forall>e. gen_secret_key w n ''mastering'' \<noteq> Some (Inl e))"
proof (intro conjI impI allI)
  assume "source \<notin> set [''os'', ''user'', ''mastering'']"
  then show "gen_secret_key w n source = Some (Inl AssertionError)"
    by (simp add: gen_secret_key_def)
next
  fix e
  assume rec: "source \<in> set [''os'', ''user'', ''mastering'']"
    and err: "gen_secret_key w n source = Some (Inl e)"
  from gen_secret_key_recognized[OF rec, of w n] err
  obtain bytes_fn where f: "map_of (bytes_fns w) source = Some bytes_fn"
    and "sample_loop bytes_fn n 0 = Some (Inl e)" by auto
  then have "loop_post bytes_fn n 0 (Inl e)" by (simp add: sample_loop_result)
  with f show "\<exists>bytes_fn j. map_of (bytes_fns w) source = Some bytes_fn \<and> bytes_fn j = Inl e"
    unfolding loop_post_def by auto
next
  fix e
  show "gen_secret_key w n ''mastering'' \<noteq> Some (Inl e)"
    using mastering_accepts[of n 0] mastering_rejects[of n 0]
    by (cases "mastering_key < n") (simp_all add: gen_secret_key_mastering)
qed


theorem gen_secret_key_mastering_value_witness:
  "(0x3aba4162c7251c891207b747840551a71939b0de081f85c4e44cf7c13e41daa6 :: int) < 2 ^ 256 \<and>
   gen_secret_key \<lparr>os_urandom = \<lambda>i. Inl SourceError, user_sha256 = \<lambda>i. Inl SourceError\<rparr>
     (2 ^ 256) ''mastering'' =
     Some (Inr 0x3aba4162c7251c891207b747840551a71939b0de081f85c4e44cf7c13e41daa6)"
proof -
  have h: "(0x3aba4162c7251c891207b747840551a71939b0de081f85c4e44cf7c13e41daa6 :: int) < 2 ^ 256"
    by simp
  from gen_secret_key_mastering_value [OF h] h show ?thesis by blast
qed

theorem gen_secret_key_mastering_returns_iff_witness:
  "(\<exists>r. gen_secret_key \<lparr>os_urandom = \<lambda>i. Inl SourceError, user_sha256 = \<lambda>i. Inl SourceError\<rparr>
          (2 ^ 256) ''mastering'' = Some r) \<and>
   gen_secret_key \<lparr>os_urandom = \<lambda>i. Inl SourceError, user_sha256 = \<lambda>i. Inl SourceError\<rparr>
     0x3aba4162c7251c891207b747840551a71939b0de081f85c4e44cf7c13e41daa6 ''mastering'' = None"
  using gen_secret_key_mastering_returns_iff
          [of "\<lparr>os_urandom = \<lambda>i. Inl SourceError, user_sha256 = \<lambda>i. Inl SourceError\<rparr>" "2 ^ 256"]
        gen_secret_key_mastering_returns_iff
          [of "\<lparr>os_urandom = \<lambda>i. Inl SourceError, user_sha256 = \<lambda>i. Inl SourceError\<rparr>"
              "0x3aba4162c7251c891207b747840551a71939b0de081f85c4e44cf7c13e41daa6"]
  by simp

lemma random_bytes_os_eq: "random_bytes_os w = os_urandom w"
  by (rule ext) (simp add: random_bytes_os_def)

lemma os_example_run:
  "gen_secret_key
     \<lparr>os_urandom = \<lambda>i. if i = 0 then Inr [0, 0] else Inr [0, 5],
      user_sha256 = \<lambda>i. Inl SourceError\<rparr> 10 ''os'' = Some (Inr 5)"
proof -
  let ?f = "\<lambda>i::nat. if i = 0 then Inr [0, 0 :: byte] else (Inr [0, 5] :: error + byte list)"
  have "sample_loop ?f 10 0 = sample_loop ?f 10 (Suc 0)"
    by (rule sample_loop_reject[of _ _ "[0, 0]"]) (simp_all add: from_bytes_def)
  also have "\<dots> = Some (Inr (from_bytes [0, 5]))"
    by (rule sample_loop_accept) (simp_all add: from_bytes_def)
  finally show ?thesis
    by (simp add: gen_secret_key_def bytes_fns_def random_bytes_os_eq from_bytes_def)
qed

theorem gen_secret_key_in_range_witness:
  "gen_secret_key
     \<lparr>os_urandom = \<lambda>i. if i = 0 then Inr [0, 0] else Inr [0, 5],
      user_sha256 = \<lambda>i. Inl SourceError\<rparr> 10 ''os'' = Some (Inr 5) \<and>
   (1 :: int) \<le> 5 \<and> (5 :: int) < 10 \<and>
   (\<exists>bytes_fn j bs.
      map_of (bytes_fns \<lparr>os_urandom = \<lambda>i. if i = 0 then Inr [0, 0] else Inr [0, 5],
                         user_sha256 = \<lambda>i. Inl SourceError\<rparr>) ''os'' = Some bytes_fn \<and>
      bytes_fn j = Inr bs \<and> from_bytes bs = 5)"
proof -
  have src: "''os'' \<in> set [''os'', ''user'', ''mastering'']" by simp
  from gen_secret_key_in_range [OF src os_example_run] os_example_run
  show ?thesis by blast
qed

theorem gen_secret_key_errors_witness:
  "''disk'' \<notin> set [''os'', ''user'', ''mastering''] \<and>
   gen_secret_key \<lparr>os_urandom = \<lambda>i. Inl SourceError, user_sha256 = \<lambda>i. Inl SourceError\<rparr>
     10 ''disk'' = Some (Inl AssertionError) \<and>
   ''os'' \<in> set [''os'', ''user'', ''mastering''] \<and>
   gen_secret_key \<lparr>os_urandom = \<lambda>i. Inl SourceError, user_sha256 = \<lambda>i. Inl SourceError\<rparr>
     10 ''os'' = Some (Inl SourceError) \<and>
   (\<exists>bytes_fn j.
      map_of (bytes_fns \<lparr>os_urandom = \<lambda>i. Inl SourceError, user_sha256 = \<lambda>i. Inl SourceError\<rparr>)
        ''os'' = Some bytes_fn \<and> bytes_fn j = Inl SourceError)"
proof -
  let ?w = "\<lparr>os_urandom = \<lambda>i. Inl SourceError, user_sha256 = \<lambda>i. Inl SourceError\<rparr>"
  have a: "''disk'' \<notin> set [''os'', ''user'', ''mastering'']" by simp
  have b: "''os'' \<in> set [''os'', ''user'', ''mastering'']" by simp
  have c: "gen_secret_key ?w 10 ''os'' = Some (Inl SourceError)"
    by (simp add: gen_secret_key_def bytes_fns_def random_bytes_os_def sample_loop_raise)
  from gen_secret_key_errors [of "''disk''" ?w 10] a
  have d: "gen_secret_key ?w 10 ''disk'' = Some (Inl AssertionError)" by blast
  from gen_secret_key_errors [of "''os''" ?w 10] b c
  have e: "\<exists>bytes_fn j. map_of (bytes_fns ?w) ''os'' = Some bytes_fn \<and> bytes_fn j = Inl SourceError"
    by blast
  from a b c d e show ?thesis by blast
qed

section \<open>Arithmetic modulo a prime\<close>

text \<open>
  Euclid's lemma and Fermat's little theorem for \<open>prime_modulus\<close>, then the square root
  by one exponentiation that \<^verbatim>\<open>decode\<close> relies on when \<open>q mod 4 = 3\<close>.
\<close>

lemma prime_modulus_divisor:
  assumes "prime_modulus q" "d dvd q" "0 \<le> d"
  shows "d = 1 \<or> d = q"
proof -
  from assms have q: "1 < q" by (simp add: prime_modulus_def)
  with assms(2) have "d \<noteq> 0" by auto
  moreover from assms(2) q have "d \<le> q" by (simp add: zdvd_imp_le)
  moreover from assms(1,2) have "d \<notin> {2..<q}" by (auto simp add: prime_modulus_def)
  ultimately show ?thesis using assms(3) by auto
qed

lemma prime_modulus_coprime:
  assumes "prime_modulus q" "\<not> q dvd a"
  shows "coprime q a"
proof -
  have "gcd q a dvd q" "0 \<le> gcd q a" by simp_all
  with assms(1) have "gcd q a = 1 \<or> gcd q a = q" by (rule prime_modulus_divisor)
  moreover have "gcd q a \<noteq> q" using assms(2) by (metis gcd_dvd2)
  ultimately show ?thesis by (simp add: coprime_iff_gcd_eq_1)
qed

lemma prime_modulus_dvd_mult:
  assumes "prime_modulus q" "q dvd a * b"
  shows "q dvd a \<or> q dvd b"
  using assms prime_modulus_coprime[of q a] coprime_dvd_mult_right_iff[of q a b] by blast

lemma prime_modulus_dvd_choose:
  assumes "prime_modulus q" "0 < k" "k < nat q"
  shows "q dvd int (nat q choose k)"
proof -
  from assms obtain k' where k: "k = Suc k'" by (cases k) auto
  from assms obtain n' where n: "nat q = Suc n'" by (cases "nat q") auto
  have "Suc k' * (Suc n' choose Suc k') = Suc n' * (n' choose k')"
    by (rule Suc_times_binomial)
  then have "int k * int (nat q choose k) = int (nat q) * int (n' choose k')"
    unfolding k n by (metis of_nat_mult)
  moreover from assms have "int (nat q) = q" by (simp add: prime_modulus_def)
  ultimately have "q dvd int k * int (nat q choose k)" by simp
  moreover have "\<not> q dvd int k" using assms(2,3) by (auto dest: zdvd_imp_le)
  ultimately show ?thesis using prime_modulus_dvd_mult[OF assms(1)] by blast
qed

lemma prime_modulus_freshman:
  assumes "prime_modulus q"
  shows "q dvd (a + 1) ^ nat q - a ^ nat q - 1"
proof -
  from assms have q: "0 < nat q" by (simp add: prime_modulus_def)
  let ?f = "\<lambda>k. int (nat q choose k) * a ^ k"
  have "(a + 1) ^ nat q = (\<Sum>k\<le>nat q. ?f k)"
    by (simp add: binomial_ring)
  also have "{..nat q} = insert 0 (insert (nat q) {0<..<nat q})" using q by auto
  also have "(\<Sum>k \<in> \<dots>. ?f k) = 1 + a ^ nat q + (\<Sum>k \<in> {0<..<nat q}. ?f k)"
    using q by simp
  finally have "(a + 1) ^ nat q - a ^ nat q - 1 = (\<Sum>k \<in> {0<..<nat q}. ?f k)" by simp
  moreover have "q dvd (\<Sum>k \<in> {0<..<nat q}. ?f k)"
    by (rule dvd_sum) (simp add: prime_modulus_dvd_choose[OF assms])
  ultimately show ?thesis by simp
qed

lemma prime_modulus_fermat_nat:
  assumes "prime_modulus q"
  shows "q dvd int a ^ nat q - int a"
proof (induction a)
  case 0
  from assms have "0 < nat q" by (simp add: prime_modulus_def)
  then show ?case by (simp add: zero_power)
next
  case (Suc a)
  have "int (Suc a) ^ nat q - int (Suc a) =
        ((int a + 1) ^ nat q - int a ^ nat q - 1) + (int a ^ nat q - int a)"
    by (simp add: algebra_simps)
  with prime_modulus_freshman[OF assms, of "int a"] Suc show ?case
    by (simp only: dvd_add)
qed

lemma prime_modulus_fermat:
  assumes "prime_modulus q" "0 \<le> a"
  shows "a ^ nat q mod q = a mod q"
proof -
  from prime_modulus_fermat_nat[OF assms(1), of "nat a"] assms(2)
  have "q dvd a ^ nat q - a" by simp
  then show ?thesis by (simp add: mod_eq_dvd_iff)
qed


lemma sqrt_candidate_square:
  assumes pm: "prime_modulus q" and q4: "q mod 4 = 3" and y0: "0 \<le> v"
  shows "((v * v) ^ nat ((q + 1) div 4)) ^ 2 mod q = v * v mod q"
proof -
  from pm have q: "1 < q" by (simp add: prime_modulus_def)
  define e where "e = nat ((q + 1) div 4)"
  from q4 q have "4 * ((q + 1) div 4) = q + 1" by presburger
  with q have e: "4 * e = nat q + 1" unfolding e_def by linarith
  have "((v * v) ^ e) ^ 2 = v ^ (4 * e)"
    by (simp add: power2_eq_square power_mult_distrib flip: power_mult power_add mult_2 ) 
  also have "\<dots> = v ^ nat q * v" by (simp add: e)
  finally have "((v * v) ^ e) ^ 2 mod q = (v ^ nat q mod q) * v mod q"
    by (simp add: mod_mult_left_eq)
  also have "\<dots> = v * v mod q"
    by (simp add: prime_modulus_fermat[OF pm y0] mod_mult_left_eq)
  finally show ?thesis by (simp add: e_def)
qed

lemma dvd_small_zero:
  assumes "q dvd (d::int)" "\<bar>d\<bar> < q"
  shows "d = 0"
proof (rule ccontr)
  assume "d \<noteq> 0"
  with assms(1) have "\<bar>q\<bar> \<le> \<bar>d\<bar>" by (simp add: dvd_imp_le_int)
  with assms(2) show False by simp
qed

lemma square_roots_mod:
  assumes pm: "prime_modulus q" and "u * u mod q = v * v mod q"
    and "0 \<le> u" "u < q" "0 \<le> v" "v < q"
  shows "u = v \<or> u = q - v \<or> (u = 0 \<and> v = 0)"
proof -
  from assms(2) have "q dvd u * u - v * v" by (simp add: mod_eq_dvd_iff)
  moreover have "u * u - v * v = (u - v) * (u + v)" by (simp add: algebra_simps)
  ultimately have "q dvd u - v \<or> q dvd u + v"
    using prime_modulus_dvd_mult[OF pm] by simp
  then show ?thesis
  proof
    assume "q dvd u - v"
    moreover from assms(3-6) have "\<bar>u - v\<bar> < q" by simp
    ultimately have "u - v = 0" by (rule dvd_small_zero)
    then show ?thesis by simp
  next
    assume d: "q dvd u + v"
    show ?thesis
    proof (cases "u + v = 0")
      case True
      with assms(3,5) show ?thesis by simp
    next
      case False
      from d have "q dvd u + v - q" by simp
      moreover from False assms(3-6) have "\<bar>u + v - q\<bar> < q" by simp
      ultimately have "u + v - q = 0" by (rule dvd_small_zero)
      then show ?thesis by simp
    qed
  qed
qed


section \<open>Byte strings\<close>

lemma length_be_digits: "length (be_digits n k) = n"
  by (induction n arbitrary: k) simp_all

lemma from_bytes_snoc: "from_bytes (bs @ [v]) = from_bytes bs * 256 + uint v"
  by (simp add: from_bytes_def)

lemma uint_byte_of_mod: "uint (word_of_int (k mod 256) :: byte) = k mod 256"
  by (simp add: uint_word_of_int_eq take_bit_eq_mod)

lemma from_bytes_be_digits:
  "0 \<le> k \<Longrightarrow> k < 256 ^ n \<Longrightarrow> from_bytes (be_digits n k) = k"
proof (induction n arbitrary: k)
  case 0
  then show ?case by (simp add: from_bytes_def)
next
  case (Suc n)
  from Suc.prems have "0 \<le> k div 256" "k div 256 < 256 ^ n"
    by (simp_all add: div_less_iff_less_mult)
  then have "from_bytes (be_digits n (k div 256)) = k div 256" by (rule Suc.IH)
  then show ?case by (simp add: from_bytes_snoc uint_byte_of_mod)
qed

lemma be_digits_big_endian: "be_digits n k = big_endian n k"
proof (induction n arbitrary: k)
  case 0
  show ?case by (simp add: big_endian_def)
next
  case (Suc n)
  have "map (\<lambda>i. word_of_int (k div 256 ^ (Suc n - 1 - i) mod 256) :: byte) [0..<n] =
        map (\<lambda>i. word_of_int (k div 256 div 256 ^ (n - 1 - i) mod 256)) [0..<n]"
  proof (rule map_cong[OF refl])
    fix i assume "i \<in> set [0..<n]"
    then have "Suc n - 1 - i = Suc (n - 1 - i)" by auto
    then show "(word_of_int (k div 256 ^ (Suc n - 1 - i) mod 256) :: byte) =
               word_of_int (k div 256 div 256 ^ (n - 1 - i) mod 256)"
      by (simp add: zdiv_zmult2_eq)
  qed
  then show ?case by (simp add: big_endian_def Suc.IH[symmetric, unfolded big_endian_def] Suc.IH)
qed

lemma to_bytes_32:
  "0 \<le> k \<Longrightarrow> k < 2 ^ 256 \<Longrightarrow> to_bytes k 32 = Inr (be_digits 32 k)"
  by (simp add: to_bytes_def)


section \<open>The two branches of decode and of encode\<close>

lemma decode_uncompressed:
  "decode c (4 # bs) =
     Inr (Point \<lparr>curve = c, x = from_bytes (take 32 bs), y = from_bytes (take 32 (drop 32 bs))\<rparr>)"
  by (simp add: decode_def)

lemma pow_mod_ok: "m \<noteq> 0 \<Longrightarrow> 0 \<le> e \<Longrightarrow> pow_mod b e m = Inr (b ^ nat e mod m)"
  by (simp add: pow_mod_def)

lemma decode_compressed:
  assumes "pre = 2 \<or> pre = 3" and "0 < p c"
  shows "decode c (pre # bx) =
     Inr (PublicKey \<lparr>curve = c, x = from_bytes bx,
        y = (let y0 = ((from_bytes bx ^ 3 + 7) mod p c) ^ nat ((p c + 1) div 4) mod p c
             in if even y0 = (pre = 2) then y0 else p c - y0)\<rparr>)"
proof -
  from assms(2) have q: "p c \<noteq> 0" "0 \<le> (p c + 1) div 4" by simp_all
  have a: "pow_mod v 3 (p c) = Inr (v ^ 3 mod p c)" for v
    using pow_mod_ok[OF q(1), of 3 v] by simp
  have b: "pow_mod v ((p c + 1) div 4) (p c) = Inr (v ^ nat ((p c + 1) div 4) mod p c)" for v
    using q by (rule pow_mod_ok)
  have m: "(from_bytes bx ^ 3 mod p c + 7) mod p c = (from_bytes bx ^ 3 + 7) mod p c"
    by (simp add: mod_add_left_eq)
  have ev: "(v mod 2 = 0) = even v" for v :: int
    by (simp add: even_iff_mod_2_eq_zero)
  from assms(1) show ?thesis
  proof
    assume "pre = 2"
    then show ?thesis
      unfolding decode_def Let_def by (simp add: a b m ev bind_err_def)
  next
    assume "pre = 3"
    then show ?thesis
      unfolding decode_def Let_def by (simp add: a b m ev bind_err_def)
  qed
qed

lemma encode_compressed:
  assumes "0 \<le> x pk" "x pk < 2 ^ 256"
  shows "encode pk True = Inr ((if even (y pk) then 2 else 3) # be_digits 32 (x pk))"
  using assms by (simp add: encode_def to_bytes_32 bind_err_def even_iff_mod_2_eq_zero)

lemma encode_uncompressed:
  assumes "0 \<le> x pk" "x pk < 2 ^ 256" "0 \<le> y pk" "y pk < 2 ^ 256"
  shows "encode pk False = Inr (4 # be_digits 32 (x pk) @ be_digits 32 (y pk))"
  using assms by (simp add: encode_def to_bytes_32 bind_err_def)



lemma take_drop_encoded:
  assumes "length bx = 32" "length bz = 32"
  shows "take 32 (bx @ bz) = bx" "take 32 (drop 32 (bx @ bz)) = bz"
  using assms by simp_all

text \<open>
  For a square \<open>a \<equiv> v\<^sup>2\<close> the candidate root is \<open>v\<close> or \<open>q - v\<close>, and the parity
  test selects \<open>v\<close>.
\<close>

lemma odd_modulus: "q mod 4 = 3 \<Longrightarrow> odd (q :: int)"
  by presburger

lemma sqrt_candidate_root:
  assumes pm: "prime_modulus q" and q4: "q mod 4 = 3"
    and v: "0 \<le> v" "v < q" and eq: "v * v mod q = a mod q"
  defines "y0 \<equiv> (a mod q) ^ nat ((q + 1) div 4) mod q"
  shows "(if even y0 = even v then y0 else q - y0) = v"
proof -
  from pm have q: "1 < q" by (simp add: prime_modulus_def)
  have "y0 * y0 mod q = ((v * v) ^ nat ((q + 1) div 4)) ^ 2 mod q"
    unfolding y0_def eq[symmetric] by (simp add: power2_eq_square mod_mult_eq power_mod)
  also have "\<dots> = v * v mod q" using pm q4 v(1) by (rule sqrt_candidate_square)
  finally have sq: "y0 * y0 mod q = v * v mod q" .
  from q have r: "0 \<le> y0" "y0 < q" by (simp_all add: y0_def)
  from square_roots_mod[OF pm sq r v]
  have "y0 = v \<or> y0 = q - v" by auto
  then show ?thesis
  proof
    assume "y0 = v" then show ?thesis by simp
  next
    assume "y0 = q - v"
    with odd_modulus[OF q4] show ?thesis by auto
  qed
qed

section \<open>Properties of encode and decode\<close>

text \<open>
  What the two encodings of a key on the curve decode to, the modulus \<open>p\<close> being a prime
  with \<open>p mod 4 = 3\<close> of at most 256 bits (so that coordinates below \<open>p\<close> fit the 32
  bytes of the format): the compressed form gives back the public key itself, the
  uncompressed form gives the base \<^verbatim>\<open>Point\<close> with the same attributes, which is not the
  public key.
\<close>

lemma decode_encode_points:
  assumes "prime_modulus (p c)" and "p c mod 4 = 3" and "p c \<le> 2 ^ 256"
    and "curve pk = c"
    and "0 \<le> x pk" and "x pk < p c" and "0 \<le> y pk" and "y pk < p c"
    and "on_curve pk"
  shows "\<exists>b1 b2. encode pk True = Inr b1 \<and> decode c b1 = Inr (PublicKey pk) \<and>
                 encode pk False = Inr b2 \<and> decode c b2 = Inr (Point pk) \<and>
                 decode c b2 \<noteq> Inr (PublicKey pk)"
proof -
  from assms(1) have q: "0 < p c" by (simp add: prime_modulus_def)
  from assms have bx: "0 \<le> x pk" "x pk < 2 ^ 256" and bz: "0 \<le> y pk" "y pk < 2 ^ 256"
    by simp_all
  have fx: "from_bytes (be_digits 32 (x pk)) = x pk"
    using bx by (intro from_bytes_be_digits) simp_all
  have fy: "from_bytes (be_digits 32 (y pk)) = y pk"
    using bz by (intro from_bytes_be_digits) simp_all
  have pk: "\<lparr>curve = c, x = x pk, y = y pk\<rparr> = pk" using assms(4) by simp
  let ?pre = "if even (y pk) then 2 else 3 :: byte"
  have e1: "encode pk True = Inr (?pre # be_digits 32 (x pk))"
    using bx by (rule encode_compressed)
  have e2: "encode pk False = Inr (4 # be_digits 32 (x pk) @ be_digits 32 (y pk))"
    using bx bz by (rule encode_uncompressed)
  have d2: "decode c (4 # be_digits 32 (x pk) @ be_digits 32 (y pk)) = Inr (Point pk)"
    by (simp add: decode_uncompressed take_drop_encoded length_be_digits fx fy pk)
  have curve_eq: "y pk * y pk mod p c = (x pk ^ 3 + 7) mod p c"
    using assms(9,4) by (simp add: on_curve_def)
  have pre2: "(?pre = 2) = even (y pk)" by simp
  have root: "(let y0 = ((x pk ^ 3 + 7) mod p c) ^ nat ((p c + 1) div 4) mod p c
               in if even y0 = (?pre = 2) then y0 else p c - y0) = y pk"
    unfolding Let_def pre2
    using sqrt_candidate_root[OF assms(1,2,7,8) curve_eq] .
  have "decode c (?pre # be_digits 32 (x pk)) =
     Inr (PublicKey \<lparr>curve = c, x = from_bytes (be_digits 32 (x pk)),
        y = (let y0 = ((from_bytes (be_digits 32 (x pk)) ^ 3 + 7) mod p c) ^ nat ((p c + 1) div 4) mod p c
             in if even y0 = (?pre = 2) then y0 else p c - y0)\<rparr>)"
    by (rule decode_compressed) (simp_all add: q)
  then have d1: "decode c (?pre # be_digits 32 (x pk)) = Inr (PublicKey pk)"
    unfolding fx root pk .
  from e1 e2 d1 d2 show ?thesis by simp
qed

subsection \<open>A small curve to run the functions on\<close>

text \<open>The prime 11 is 3 modulo 4; \<open>(2, 2)\<close> and \<open>(2, 9)\<close> lie on \<open>y\<^sup>2 = x\<^sup>3 + 7\<close> over it.\<close>

lemma interval_2_11: "{2..<11::int} = {2, 3, 4, 5, 6, 7, 8, 9, 10}"
  by auto

lemma prime_modulus_11: "prime_modulus 11"
  unfolding prime_modulus_def interval_2_11 by simp

lemma interval_0_7: "{0..<7::int} = {0, 1, 2, 3, 4, 5, 6}"
  by auto

lemma be_digits_32_2:
  "be_digits 32 2 =
     [0, 0, 0, 0, 0, 0, 0, 0, 0, 0, 0, 0, 0, 0, 0, 0, 0, 0, 0, 0, 0, 0, 0, 0, 0, 0,
      0, 0, 0, 0, 0, 2]"
  by code_simp

lemma decode_encode_points_example:
  "prime_modulus (p \<lparr>p = 11\<rparr>) \<and> p \<lparr>p = 11\<rparr> mod 4 = 3 \<and> p \<lparr>p = 11\<rparr> \<le> 2 ^ 256 \<and>
   on_curve \<lparr>curve = \<lparr>p = 11\<rparr>, x = 2, y = 2\<rparr> \<and>
   encode \<lparr>curve = \<lparr>p = 11\<rparr>, x = 2, y = 2\<rparr> True =
     Inr [2, 0, 0, 0, 0, 0, 0, 0, 0, 0, 0, 0, 0, 0, 0, 0, 0, 0, 0, 0, 0, 0, 0, 0, 0, 0,
      0, 0, 0, 0, 0, 0, 2] \<and>
   decode \<lparr>p = 11\<rparr>
     [2, 0, 0, 0, 0, 0, 0, 0, 0, 0, 0, 0, 0, 0, 0, 0, 0, 0, 0, 0, 0, 0, 0, 0, 0, 0,
      0, 0, 0, 0, 0, 0, 2] =
     Inr (PublicKey \<lparr>curve = \<lparr>p = 11\<rparr>, x = 2, y = 2\<rparr>) \<and>
   encode \<lparr>curve = \<lparr>p = 11\<rparr>, x = 2, y = 2\<rparr> False =
     Inr [4, 0, 0, 0, 0, 0, 0, 0, 0, 0, 0, 0, 0, 0, 0, 0, 0, 0, 0, 0, 0, 0, 0, 0, 0, 0,
      0, 0, 0, 0, 0, 0, 2, 0, 0, 0, 0, 0, 0, 0, 0, 0, 0, 0, 0, 0, 0, 0, 0, 0, 0, 0,
      0, 0, 0, 0, 0, 0, 0, 0, 0, 0, 0, 0, 2] \<and>
   decode \<lparr>p = 11\<rparr>
     [4, 0, 0, 0, 0, 0, 0, 0, 0, 0, 0, 0, 0, 0, 0, 0, 0, 0, 0, 0, 0, 0, 0, 0, 0, 0,
      0, 0, 0, 0, 0, 0, 2, 0, 0, 0, 0, 0, 0, 0, 0, 0, 0, 0, 0, 0, 0, 0, 0, 0, 0, 0,
      0, 0, 0, 0, 0, 0, 0, 0, 0, 0, 0, 0, 2] =
     Inr (Point \<lparr>curve = \<lparr>p = 11\<rparr>, x = 2, y = 2\<rparr>)"
proof -
  let ?c = "\<lparr>p = 11\<rparr>"
  let ?pk = "\<lparr>curve = ?c, x = 2, y = 2\<rparr>"
  have h1: "prime_modulus (p ?c)" by (simp add: prime_modulus_11)
  have h2: "p ?c mod 4 = 3" by simp
  have h3: "p ?c \<le> 2 ^ 256" by simp
  have h4: "curve ?pk = ?c" by simp
  have h5: "0 \<le> x ?pk" "x ?pk < p ?c" "0 \<le> y ?pk" "y ?pk < p ?c" by simp_all
  have h6: "on_curve ?pk" by (simp add: on_curve_def)
  have e1: "encode ?pk True = Inr (2 # be_digits 32 2)"
    using encode_compressed[of ?pk] by simp
  have e2: "encode ?pk False = Inr (4 # be_digits 32 2 @ be_digits 32 2)"
    using encode_uncompressed[of ?pk] by simp
  from decode_encode_points [OF h1 h2 h3 h4 h5 h6] e1 e2
  have "decode ?c (2 # be_digits 32 2) = Inr (PublicKey ?pk) \<and>
        decode ?c (4 # be_digits 32 2 @ be_digits 32 2) = Inr (Point ?pk)" by auto
  with e1 e2 h1 h2 h3 h6 show ?thesis
    unfolding be_digits_32_2 by simp
qed

subsection \<open>The generator of secp256k1\<close>

lemma be_digits_32_Gx:
  "be_digits 32 0x79BE667EF9DCBBAC55A06295CE870B07029BFCDB2DCE28D959F2815B16F81798 =
     [121, 190, 102, 126, 249, 220, 187, 172, 85, 160, 98, 149, 206, 135, 11, 7, 2,
      155, 252, 219, 45, 206, 40, 217, 89, 242, 129, 91, 22, 248, 23, 152]"
  by code_simp

lemma be_digits_32_Gy:
  "be_digits 32 0x483ADA7726A3C4655DA4FBFC0E1108A8FD17B448A68554199C47D08FFB10D4B8 =
     [72, 58, 218, 119, 38, 163, 196, 101, 93, 164, 251, 252, 14, 17, 8, 168, 253,
      23, 180, 72, 166, 133, 84, 25, 156, 71, 208, 143, 251, 16, 212, 184]"
  by code_simp

text \<open>
  Claim C1. For every public key \<open>pk\<close> on the curve with coordinates in \<open>[0, p)\<close>,
  decoding the encoding of \<open>pk\<close> returns a value equal to \<open>pk\<close>, for the compressed
  and for the uncompressed form. The compressed branch of \<^verbatim>\<open>decode\<close> builds
  \<^verbatim>\<open>cls(curve, x, y)\<close> and keeps this (lemma \<open>decode_encode_points\<close>). The
  uncompressed branch builds \<^verbatim>\<open>Point(curve, x, y)\<close> instead, so its result is never the
  public key that was encoded. Evaluated here at the generator of secp256k1 (the
  public key of the secret key 1, modulus \<open>2\<^sup>2\<^sup>5\<^sup>6 - 2\<^sup>3\<^sup>2 - 977\<close>): the point is on
  the curve, and the 65 bytes of its uncompressed encoding decode to the base point
  with its coordinates, not to the public key.
\<close>

theorem decode_encode_uncompressed_not_public_key:
  "on_curve \<lparr>curve = \<lparr>p = 2 ^ 256 - 2 ^ 32 - 977\<rparr>,
      x = 0x79BE667EF9DCBBAC55A06295CE870B07029BFCDB2DCE28D959F2815B16F81798,
      y = 0x483ADA7726A3C4655DA4FBFC0E1108A8FD17B448A68554199C47D08FFB10D4B8\<rparr> \<and>
   encode \<lparr>curve = \<lparr>p = 2 ^ 256 - 2 ^ 32 - 977\<rparr>,
      x = 0x79BE667EF9DCBBAC55A06295CE870B07029BFCDB2DCE28D959F2815B16F81798,
      y = 0x483ADA7726A3C4655DA4FBFC0E1108A8FD17B448A68554199C47D08FFB10D4B8\<rparr> False =
     Inr [4, 121, 190, 102, 126, 249, 220, 187, 172, 85, 160, 98, 149, 206, 135, 11, 7,
      2, 155, 252, 219, 45, 206, 40, 217, 89, 242, 129, 91, 22, 248, 23, 152, 72,
      58, 218, 119, 38, 163, 196, 101, 93, 164, 251, 252, 14, 17, 8, 168, 253, 23,
      180, 72, 166, 133, 84, 25, 156, 71, 208, 143, 251, 16, 212, 184] \<and>
   decode \<lparr>p = 2 ^ 256 - 2 ^ 32 - 977\<rparr>
     [4, 121, 190, 102, 126, 249, 220, 187, 172, 85, 160, 98, 149, 206, 135, 11, 7,
      2, 155, 252, 219, 45, 206, 40, 217, 89, 242, 129, 91, 22, 248, 23, 152, 72,
      58, 218, 119, 38, 163, 196, 101, 93, 164, 251, 252, 14, 17, 8, 168, 253, 23,
      180, 72, 166, 133, 84, 25, 156, 71, 208, 143, 251, 16, 212, 184] =
     Inr (Point \<lparr>curve = \<lparr>p = 2 ^ 256 - 2 ^ 32 - 977\<rparr>,
        x = 0x79BE667EF9DCBBAC55A06295CE870B07029BFCDB2DCE28D959F2815B16F81798,
        y = 0x483ADA7726A3C4655DA4FBFC0E1108A8FD17B448A68554199C47D08FFB10D4B8\<rparr>) \<and>
   decode \<lparr>p = 2 ^ 256 - 2 ^ 32 - 977\<rparr>
     [4, 121, 190, 102, 126, 249, 220, 187, 172, 85, 160, 98, 149, 206, 135, 11, 7,
      2, 155, 252, 219, 45, 206, 40, 217, 89, 242, 129, 91, 22, 248, 23, 152, 72,
      58, 218, 119, 38, 163, 196, 101, 93, 164, 251, 252, 14, 17, 8, 168, 253, 23,
      180, 72, 166, 133, 84, 25, 156, 71, 208, 143, 251, 16, 212, 184] \<noteq>
     Inr (PublicKey \<lparr>curve = \<lparr>p = 2 ^ 256 - 2 ^ 32 - 977\<rparr>,
        x = 0x79BE667EF9DCBBAC55A06295CE870B07029BFCDB2DCE28D959F2815B16F81798,
        y = 0x483ADA7726A3C4655DA4FBFC0E1108A8FD17B448A68554199C47D08FFB10D4B8\<rparr>)"
proof -
  let ?c = "\<lparr>p = 2 ^ 256 - 2 ^ 32 - 977\<rparr>"
  let ?pk = "\<lparr>curve = ?c,
      x = 0x79BE667EF9DCBBAC55A06295CE870B07029BFCDB2DCE28D959F2815B16F81798,
      y = 0x483ADA7726A3C4655DA4FBFC0E1108A8FD17B448A68554199C47D08FFB10D4B8\<rparr>"
  have oc: "on_curve ?pk" by (simp add: on_curve_def)
  have e: "encode ?pk False =
     Inr [4, 121, 190, 102, 126, 249, 220, 187, 172, 85, 160, 98, 149, 206, 135, 11, 7,
      2, 155, 252, 219, 45, 206, 40, 217, 89, 242, 129, 91, 22, 248, 23, 152, 72,
      58, 218, 119, 38, 163, 196, 101, 93, 164, 251, 252, 14, 17, 8, 168, 253, 23,
      180, 72, 166, 133, 84, 25, 156, 71, 208, 143, 251, 16, 212, 184]"
    using encode_uncompressed[of ?pk] by (simp add: be_digits_32_Gx be_digits_32_Gy)
  have d: "decode ?c
     [4, 121, 190, 102, 126, 249, 220, 187, 172, 85, 160, 98, 149, 206, 135, 11, 7,
      2, 155, 252, 219, 45, 206, 40, 217, 89, 242, 129, 91, 22, 248, 23, 152, 72,
      58, 218, 119, 38, 163, 196, 101, 93, 164, 251, 252, 14, 17, 8, 168, 253, 23,
      180, 72, 166, 133, 84, 25, 156, 71, 208, 143, 251, 16, 212, 184] = Inr (Point ?pk)"
    by (simp add: decode_def from_bytes_def)
  from oc e d show ?thesis by simp
qed

text \<open>
  Claim C2. For every byte string that starts with \<open>0x02\<close> or \<open>0x03\<close>, with \<open>x\<close> the
  big-endian value of the bytes after the prefix (32 of them in the format; the code
  reads all that follow), \<^verbatim>\<open>decode\<close> computes \<open>y2 = (x\<^sup>3 + 7) mod p\<close> and the candidate
  root \<open>y0 = y2 ^ ((p + 1) div 4) mod p\<close> and returns the public key \<open>(x, y)\<close> with \<open>y = y0\<close>
  if the parity of \<open>y0\<close> is the one the prefix asks for (even for \<open>0x02\<close>, odd for
  \<open>0x03\<close>) and \<open>y = p - y0\<close> otherwise. The returned \<open>y\<close> always has the parity of the
  prefix, the modulus being positive and odd (as every \<open>p\<close> with \<open>p mod 4 = 3\<close> is).
\<close>

theorem decode_compressed_value:
  assumes "pre = 2 \<or> pre = 3" and "0 < p c" and "odd (p c)"
  shows "\<exists>xv y2 y0 yv.
           xv = from_bytes bx \<and>
           y2 = (xv ^ 3 + 7) mod p c \<and>
           y0 = y2 ^ nat ((p c + 1) div 4) mod p c \<and>
           yv = (if even y0 = (pre = 2) then y0 else p c - y0) \<and>
           decode c (pre # bx) = Inr (PublicKey \<lparr>curve = c, x = xv, y = yv\<rparr>) \<and>
           (even yv \<longleftrightarrow> pre = 2)"
proof -
  define y0 where "y0 = ((from_bytes bx ^ 3 + 7) mod p c) ^ nat ((p c + 1) div 4) mod p c"
  define yv where "yv = (if even y0 = (pre = 2) then y0 else p c - y0)"
  have "decode c (pre # bx) = Inr (PublicKey \<lparr>curve = c, x = from_bytes bx, y = yv\<rparr>)"
    using decode_compressed[OF assms(1,2), of bx] by (simp add: yv_def y0_def Let_def)
  moreover have "even yv \<longleftrightarrow> pre = 2"
    using assms(3) by (auto simp add: yv_def)
  ultimately show ?thesis
    unfolding yv_def y0_def by blast
qed

theorem decode_compressed_value_witness:
  "(0 :: int) < p \<lparr>p = 11\<rparr> \<and> odd (p \<lparr>p = 11\<rparr>) \<and>
   decode \<lparr>p = 11\<rparr>
     [2, 0, 0, 0, 0, 0, 0, 0, 0, 0, 0, 0, 0, 0, 0, 0, 0, 0, 0, 0, 0, 0, 0, 0, 0, 0,
      0, 0, 0, 0, 0, 0, 2] =
     Inr (PublicKey \<lparr>curve = \<lparr>p = 11\<rparr>, x = 2, y = 2\<rparr>) \<and>
   even (2 :: int)"
proof -
  let ?c = "\<lparr>p = 11\<rparr>"
  have h1: "(2 :: byte) = 2 \<or> (2 :: byte) = 3" by simp
  have h2: "0 < p ?c" by simp
  have h3: "odd (p ?c)" by simp
  have fb: "from_bytes [0, 0, 0, 0, 0, 0, 0, 0, 0, 0, 0, 0, 0, 0, 0, 0, 0, 0, 0, 0, 0, 0, 0, 0, 0, 0,
      0, 0, 0, 0, 0, 2] = 2"
    by (simp add: from_bytes_def)
  from decode_compressed_value [OF h1 h2 h3, of "[0, 0, 0, 0, 0, 0, 0, 0, 0, 0, 0, 0, 0, 0, 0, 0, 0, 0, 0, 0, 0, 0, 0, 0, 0, 0,
      0, 0, 0, 0, 0, 2]"]
  show ?thesis unfolding fb by simp
qed


text \<open>
  Claim C3. For every public key with \<open>0 \<le> x, y < 2\<^sup>2\<^sup>5\<^sup>6\<close> the uncompressed encoding
  is exactly 65 bytes: \<open>0x04\<close>, then \<open>x\<close> as 32 bytes big-endian, then \<open>y\<close> as 32 bytes
  big-endian; the compressed encoding is exactly 33 bytes: \<open>0x02\<close> for an even \<open>y\<close> or
  \<open>0x03\<close> for an odd one, then \<open>x\<close> as 32 bytes big-endian. Reading the 32 bytes back as
  a big-endian number gives the coordinate.
\<close>

theorem encode_layout:
  assumes "0 \<le> x pk" and "x pk < 2 ^ 256" and "0 \<le> y pk" and "y pk < 2 ^ 256"
  shows "(\<exists>b. encode pk False = Inr b \<and> length b = 65 \<and>
              b = [4] @ big_endian 32 (x pk) @ big_endian 32 (y pk)) \<and>
         (\<exists>b. encode pk True = Inr b \<and> length b = 33 \<and>
              b = [if even (y pk) then 2 else 3] @ big_endian 32 (x pk)) \<and>
         from_bytes (big_endian 32 (x pk)) = x pk \<and>
         from_bytes (big_endian 32 (y pk)) = y pk"
proof -
  have len: "length (big_endian 32 k) = 32" for k
    by (simp add: big_endian_def)
  have u: "encode pk False = Inr ([4] @ big_endian 32 (x pk) @ big_endian 32 (y pk))"
    using encode_uncompressed[OF assms] by (simp add: be_digits_big_endian)
  have c: "encode pk True = Inr ([if even (y pk) then 2 else 3] @ big_endian 32 (x pk))"
    using encode_compressed[OF assms(1,2)] by (simp add: be_digits_big_endian)
  have fx: "from_bytes (big_endian 32 (x pk)) = x pk"
    using assms(1,2) from_bytes_be_digits[of "x pk" 32] by (simp add: be_digits_big_endian)
  have fy: "from_bytes (big_endian 32 (y pk)) = y pk"
    using assms(3,4) from_bytes_be_digits[of "y pk" 32] by (simp add: be_digits_big_endian)
  from u c fx fy show ?thesis by (simp add: len)
qed

lemma be_digits_32_258:
  "be_digits 32 258 =
     [0, 0, 0, 0, 0, 0, 0, 0, 0, 0, 0, 0, 0, 0, 0, 0, 0, 0, 0, 0, 0, 0, 0, 0, 0, 0,
      0, 0, 0, 0, 1, 2]"
  by code_simp

lemma be_digits_32_3:
  "be_digits 32 3 =
     [0, 0, 0, 0, 0, 0, 0, 0, 0, 0, 0, 0, 0, 0, 0, 0, 0, 0, 0, 0, 0, 0, 0, 0, 0, 0,
      0, 0, 0, 0, 0, 3]"
  by code_simp

theorem encode_layout_witness:
  "encode \<lparr>curve = \<lparr>p = 11\<rparr>, x = 258, y = 3\<rparr> False =
     Inr [4, 0, 0, 0, 0, 0, 0, 0, 0, 0, 0, 0, 0, 0, 0, 0, 0, 0, 0, 0, 0, 0, 0, 0, 0, 0,
      0, 0, 0, 0, 0, 1, 2, 0, 0, 0, 0, 0, 0, 0, 0, 0, 0, 0, 0, 0, 0, 0, 0, 0, 0, 0,
      0, 0, 0, 0, 0, 0, 0, 0, 0, 0, 0, 0, 3] \<and>
   encode \<lparr>curve = \<lparr>p = 11\<rparr>, x = 258, y = 3\<rparr> True =
     Inr [3, 0, 0, 0, 0, 0, 0, 0, 0, 0, 0, 0, 0, 0, 0, 0, 0, 0, 0, 0, 0, 0, 0, 0, 0, 0,
      0, 0, 0, 0, 0, 1, 2]"
proof -
  let ?pk = "\<lparr>curve = \<lparr>p = 11\<rparr>, x = 258, y = 3\<rparr>"
  have h: "0 \<le> x ?pk" "x ?pk < 2 ^ 256" "0 \<le> y ?pk" "y ?pk < 2 ^ 256" by simp_all
  from encode_layout [OF h]
  have "encode ?pk False = Inr ([4] @ be_digits 32 258 @ be_digits 32 3) \<and>
        encode ?pk True = Inr ([3] @ be_digits 32 258)"
    by (simp add: be_digits_big_endian)
  then show ?thesis unfolding be_digits_32_258 be_digits_32_3 by simp
qed

text \<open>
  Claim C4 says that \<^verbatim>\<open>decode\<close> fails exactly when the leading byte is none of \<open>0x02\<close>,
  \<open>0x03\<close>, \<open>0x04\<close> or the length is not the one of the prefix, so that a 64-byte
  buffer starting with \<open>0x04\<close> is refused. The code never looks at the length: the
  slices of a short buffer are just shorter. Here the 64 bytes \<open>0x04\<close>, \<open>x = 1\<close> on 32
  bytes and \<open>y = 2\<close> on the remaining 31 bytes decode to the point \<open>(1, 2)\<close>; the
  modulus is the prime \<open>2\<^sup>2\<^sup>5\<^sup>6 - 2\<^sup>3\<^sup>2 - 977\<close> of secp256k1, which this branch does not
  even read.
\<close>

theorem decode_short_uncompressed_counterexample:
  "length ([4, 0, 0, 0, 0, 0, 0, 0, 0, 0, 0, 0, 0, 0, 0, 0, 0, 0, 0, 0, 0, 0, 0, 0, 0, 0,
      0, 0, 0, 0, 0, 0, 1, 0, 0, 0, 0, 0, 0, 0, 0, 0, 0, 0, 0, 0, 0, 0, 0, 0, 0, 0,
      0, 0, 0, 0, 0, 0, 0, 0, 0, 0, 0, 2] :: byte list) = 64 \<and>
   decode \<lparr>p = 2 ^ 256 - 2 ^ 32 - 977\<rparr>
     [4, 0, 0, 0, 0, 0, 0, 0, 0, 0, 0, 0, 0, 0, 0, 0, 0, 0, 0, 0, 0, 0, 0, 0, 0, 0,
      0, 0, 0, 0, 0, 0, 1, 0, 0, 0, 0, 0, 0, 0, 0, 0, 0, 0, 0, 0, 0, 0, 0, 0, 0, 0,
      0, 0, 0, 0, 0, 0, 0, 0, 0, 0, 0, 2] =
     Inr (Point \<lparr>curve = \<lparr>p = 2 ^ 256 - 2 ^ 32 - 977\<rparr>, x = 1, y = 2\<rparr>)"
  by (simp add: decode_def from_bytes_def)

text \<open>
  Claim C4, amended. For a positive modulus, \<^verbatim>\<open>decode\<close> fails on its assertion (the
  InvalidEncodingError of the specification) exactly when the buffer is not empty and
  its leading byte is none of \<open>0x02\<close>, \<open>0x03\<close>, \<open>0x04\<close>; it raises IndexError exactly on
  the empty buffer; and it fails in no other case, whatever the length of the buffer.
  In particular a 33-byte buffer starting with \<open>0x05\<close> fails on the assertion.
\<close>

theorem decode_fails_iff:
  assumes "0 < p c"
  shows "(decode c b = Inl AssertionError \<longleftrightarrow> (\<exists>b0 bs. b = b0 # bs \<and> b0 \<notin> {2, 3, 4})) \<and>
         (decode c b = Inl IndexError \<longleftrightarrow> b = []) \<and>
         ((\<exists>e. decode c b = Inl e) \<longleftrightarrow> (b = [] \<or> (\<exists>b0 bs. b = b0 # bs \<and> b0 \<notin> {2, 3, 4})))"
proof (cases b)
  case Nil
  then show ?thesis by (simp add: decode_def)
next
  case (Cons b0 bs)
  consider "b0 = 4" | "b0 = 2 \<or> b0 = 3" | "b0 \<notin> {2, 3, 4}" by auto
  then show ?thesis
  proof cases
    case 1
    then show ?thesis unfolding Cons by (simp add: decode_uncompressed)
  next
    case 2
    from decode_compressed[OF 2 assms, of bs] 2 show ?thesis unfolding Cons by auto
  next
    case 3
    then have "decode c (b0 # bs) = Inl AssertionError" by (simp add: decode_def)
    with 3 show ?thesis unfolding Cons by simp
  qed
qed

theorem decode_fails_iff_witness:
  "(0 :: int) < p \<lparr>p = 11\<rparr> \<and>
   length ([5, 0, 0, 0, 0, 0, 0, 0, 0, 0, 0, 0, 0, 0, 0, 0, 0, 0, 0, 0, 0, 0, 0, 0, 0, 0,
      0, 0, 0, 0, 0, 0, 0] :: byte list) = 33 \<and>
   decode \<lparr>p = 11\<rparr>
     [5, 0, 0, 0, 0, 0, 0, 0, 0, 0, 0, 0, 0, 0, 0, 0, 0, 0, 0, 0, 0, 0, 0, 0, 0, 0,
      0, 0, 0, 0, 0, 0, 0] = Inl AssertionError \<and>
   decode \<lparr>p = 11\<rparr> [] = Inl IndexError"
proof -
  have h: "0 < p \<lparr>p = 11\<rparr>" by simp
  from decode_fails_iff [OF h, of "[5, 0, 0, 0, 0, 0, 0, 0, 0, 0, 0, 0, 0, 0, 0, 0, 0, 0, 0, 0, 0, 0, 0, 0, 0, 0,
      0, 0, 0, 0, 0, 0, 0]"]
       decode_fails_iff [OF h, of "[]"]
  show ?thesis by simp
qed

text \<open>
  Claim C6. For every input with prefix \<open>0x02\<close> or \<open>0x03\<close> (of 33 bytes or any other
  length) whose \<open>x\<close> makes \<open>x\<^sup>3 + 7\<close> a quadratic non-residue modulo \<open>p\<close>, \<^verbatim>\<open>decode\<close>
  raises nothing: it returns a public key with that \<open>x\<close>, and the returned point does
  not satisfy \<open>y\<^sup>2 \<equiv> x\<^sup>3 + 7 (mod p)\<close>.
\<close>

theorem decode_off_curve:
  assumes "pre = 2 \<or> pre = 3" and "0 < p c"
    and "\<not> quadratic_residue (p c) (from_bytes bx ^ 3 + 7)"
  shows "\<exists>pt. decode c (pre # bx) = Inr (PublicKey pt) \<and> curve pt = c \<and>
              x pt = from_bytes bx \<and> \<not> on_curve pt"
proof -
  from decode_compressed[OF assms(1,2), of bx]
  obtain yv where d: "decode c (pre # bx) = Inr (PublicKey \<lparr>curve = c, x = from_bytes bx, y = yv\<rparr>)"
    by blast
  have "\<not> on_curve \<lparr>curve = c, x = from_bytes bx, y = yv\<rparr>"
  proof
    assume "on_curve \<lparr>curve = c, x = from_bytes bx, y = yv\<rparr>"
    then have "yv * yv mod p c = (from_bytes bx ^ 3 + 7) mod p c" by (simp add: on_curve_def)
    then have "(yv mod p c) * (yv mod p c) mod p c = (from_bytes bx ^ 3 + 7) mod p c"
      by (simp add: mod_mult_eq)
    moreover from assms(2) have "yv mod p c \<in> {0..<p c}" by simp
    ultimately have "quadratic_residue (p c) (from_bytes bx ^ 3 + 7)"
      unfolding quadratic_residue_def by blast
    with assms(3) show False by contradiction
  qed
  with d show ?thesis by (intro exI[of _ "\<lparr>curve = c, x = from_bytes bx, y = yv\<rparr>"]) simp
qed

theorem decode_off_curve_witness:
  "\<not> quadratic_residue (p \<lparr>p = 7\<rparr>) (3 ^ 3 + 7) \<and>
   (\<exists>pt. decode \<lparr>p = 7\<rparr>
      [3, 0, 0, 0, 0, 0, 0, 0, 0, 0, 0, 0, 0, 0, 0, 0, 0, 0, 0, 0, 0, 0, 0, 0, 0, 0,
      0, 0, 0, 0, 0, 0, 3] = Inr (PublicKey pt) \<and>
      x pt = 3 \<and> \<not> on_curve pt)"
proof -
  let ?c = "\<lparr>p = 7\<rparr>"
  have fb: "from_bytes [0, 0, 0, 0, 0, 0, 0, 0, 0, 0, 0, 0, 0, 0, 0, 0, 0, 0, 0, 0, 0, 0, 0, 0, 0, 0,
      0, 0, 0, 0, 0, 3] = 3"
    by (simp add: from_bytes_def)
  have h1: "(3 :: byte) = 2 \<or> (3 :: byte) = 3" by simp
  have h2: "0 < p ?c" by simp
  have nr: "\<not> quadratic_residue (p ?c) (3 ^ 3 + 7)"
    unfolding quadratic_residue_def by (simp add: interval_0_7)
  then have h3: "\<not> quadratic_residue (p ?c) (from_bytes [0, 0, 0, 0, 0, 0, 0, 0, 0, 0, 0, 0, 0, 0, 0, 0, 0, 0, 0, 0, 0, 0, 0, 0, 0, 0,
      0, 0, 0, 0, 0, 3] ^ 3 + 7)"
    unfolding fb .
  from decode_off_curve [OF h1 h2 h3] nr show ?thesis unfolding fb by blast
qed

text \<open>The uncompressed encoding starts with \<open>0x04\<close>.\<close>

lemma encode_uncompressed_prefix:
  assumes "encode pk False = Inr b"
  shows "\<exists>bs. b = 4 # bs"
  using assms by (auto simp add: encode_def bind_err_def split: sum.splits)

text \<open>
  Claim C9. The two branches of \<^verbatim>\<open>decode\<close> build objects of different classes: every
  input with leading byte \<open>0x04\<close> gives a base \<^verbatim>\<open>Point\<close>, every input with leading byte
  \<open>0x02\<close> or \<open>0x03\<close> gives a \<^verbatim>\<open>PublicKey\<close> (the modulus being positive). So decoding
  what \<^verbatim>\<open>encode\<close> produced with \<^verbatim>\<open>compressed=False\<close> gives a \<^verbatim>\<open>Point\<close>, never a
  \<^verbatim>\<open>PublicKey\<close>.
\<close>

theorem decode_result_class:
  "(\<exists>pt. decode c (4 # bs) = Inr (Point pt)) \<and>
   (0 < p c \<longrightarrow> (\<exists>pt. decode c (2 # bs) = Inr (PublicKey pt)) \<and>
                  (\<exists>pt. decode c (3 # bs) = Inr (PublicKey pt))) \<and>
   (\<forall>pk b. encode pk False = Inr b \<longrightarrow>
      (\<exists>pt. decode c b = Inr (Point pt)) \<and> (\<forall>pt. decode c b \<noteq> Inr (PublicKey pt)))"
proof (intro conjI impI allI)
  show "\<exists>pt. decode c (4 # bs) = Inr (Point pt)" by (simp add: decode_uncompressed)
next
  assume "0 < p c"
  then show "\<exists>pt. decode c (2 # bs) = Inr (PublicKey pt)"
    using decode_compressed[of 2 c bs] by simp
next
  assume "0 < p c"
  then show "\<exists>pt. decode c (3 # bs) = Inr (PublicKey pt)"
    using decode_compressed[of 3 c bs] by simp
next
  fix pk b assume "encode pk False = Inr b"
  then obtain bs' where "b = 4 # bs'" using encode_uncompressed_prefix by blast
  then show "\<exists>pt. decode c b = Inr (Point pt)" by (simp add: decode_uncompressed)
next
  fix pk b pt assume "encode pk False = Inr b"
  then obtain bs' where "b = 4 # bs'" using encode_uncompressed_prefix by blast
  then show "decode c b \<noteq> Inr (PublicKey pt)" by (simp add: decode_uncompressed)
qed

theorem decode_result_class_witness:
  "(0 :: int) < p \<lparr>p = 11\<rparr> \<and>
   encode \<lparr>curve = \<lparr>p = 11\<rparr>, x = 2, y = 2\<rparr> False =
     Inr [4, 0, 0, 0, 0, 0, 0, 0, 0, 0, 0, 0, 0, 0, 0, 0, 0, 0, 0, 0, 0, 0, 0, 0, 0, 0,
      0, 0, 0, 0, 0, 0, 2, 0, 0, 0, 0, 0, 0, 0, 0, 0, 0, 0, 0, 0, 0, 0, 0, 0, 0, 0,
      0, 0, 0, 0, 0, 0, 0, 0, 0, 0, 0, 0, 2] \<and>
   (\<exists>pt. decode \<lparr>p = 11\<rparr>
      [4, 0, 0, 0, 0, 0, 0, 0, 0, 0, 0, 0, 0, 0, 0, 0, 0, 0, 0, 0, 0, 0, 0, 0, 0, 0,
      0, 0, 0, 0, 0, 0, 2, 0, 0, 0, 0, 0, 0, 0, 0, 0, 0, 0, 0, 0, 0, 0, 0, 0, 0, 0,
      0, 0, 0, 0, 0, 0, 0, 0, 0, 0, 0, 0, 2] = Inr (Point pt)) \<and>
   (\<forall>pt. decode \<lparr>p = 11\<rparr>
      [4, 0, 0, 0, 0, 0, 0, 0, 0, 0, 0, 0, 0, 0, 0, 0, 0, 0, 0, 0, 0, 0, 0, 0, 0, 0,
      0, 0, 0, 0, 0, 0, 2, 0, 0, 0, 0, 0, 0, 0, 0, 0, 0, 0, 0, 0, 0, 0, 0, 0, 0, 0,
      0, 0, 0, 0, 0, 0, 0, 0, 0, 0, 0, 0, 2] \<noteq> Inr (PublicKey pt)) \<and>
   (\<exists>pt. decode \<lparr>p = 11\<rparr>
      [2, 0, 0, 0, 0, 0, 0, 0, 0, 0, 0, 0, 0, 0, 0, 0, 0, 0, 0, 0, 0, 0, 0, 0, 0, 0,
      0, 0, 0, 0, 0, 0, 2] = Inr (PublicKey pt))"
proof -
  let ?c = "\<lparr>p = 11\<rparr>"
  let ?pk = "\<lparr>curve = ?c, x = 2, y = 2\<rparr>"
  have h: "0 < p ?c" by simp
  have e: "encode ?pk False =
     Inr [4, 0, 0, 0, 0, 0, 0, 0, 0, 0, 0, 0, 0, 0, 0, 0, 0, 0, 0, 0, 0, 0, 0, 0, 0, 0,
      0, 0, 0, 0, 0, 0, 2, 0, 0, 0, 0, 0, 0, 0, 0, 0, 0, 0, 0, 0, 0, 0, 0, 0, 0, 0,
      0, 0, 0, 0, 0, 0, 0, 0, 0, 0, 0, 0, 2]"
    using encode_uncompressed[of ?pk] by (simp add: be_digits_32_2)
  from decode_result_class [of ?c "[0, 0, 0, 0, 0, 0, 0, 0, 0, 0, 0, 0, 0, 0, 0, 0, 0, 0, 0, 0, 0, 0, 0, 0, 0, 0,
      0, 0, 0, 0, 0, 2]"] h e
  show ?thesis by blast
qed

end
